theory Spec2Isabelle
  imports Complex_Main
begin

section \<open>Canvas and style constants\<close>

text \<open>JavaScript numbers are modelled as the reals they denote; array lengths, loop
  counters and row and column numbers are natural numbers. The host library (p5) is
  outside the repository: its clock and its random source are parameters of the model,
  and its pure helpers \<open>lerp\<close> and \<open>constrain\<close> are written out below.\<close>

definition W :: real where
  "W = 820"

definition H :: real where
  "H = 600"

definition LINE_W :: real where
  "LINE_W = 8"

definition MARGIN :: real where
  "MARGIN = 10"

definition TRANSITION_MS :: real where
  "TRANSITION_MS = 1100"

section \<open>Values\<close>

text \<open>A p5 colour made by \<open>color(r, g, b)\<close>.\<close>

datatype color = Color nat nat nat

text \<open>A number that may have come from reading past the end of an array: such a read
  gives \<open>undefined\<close>, and arithmetic on it gives \<open>NaN\<close>.\<close>

datatype jsnum = Num real | NaN

definition js_index :: "real list \<Rightarrow> nat \<Rightarrow> jsnum" where
  "js_index a i = (if i < length a then Num (a ! i) else NaN)"

text \<open>An entry of the index array that \<open>mousePressed\<close> shuffles, and hence a key of a
  colour map: a cell index, or \<open>undefined\<close>.\<close>

datatype key = Index int | Undefined

type_synonym colormap = "key \<rightharpoonup> color"

text \<open>An anchor \<open>{pcx, pcy, col}\<close> of the original composition.\<close>

record target =
  pcx :: real
  pcy :: real
  col :: color

text \<open>A cell object \<open>{x, y, w, h, i, j}\<close> as pushed by \<open>computeCellsFor\<close>.\<close>

record cell =
  cell_x :: real
  cell_y :: real
  cell_w :: real
  cell_h :: real
  cell_i :: nat
  cell_j :: nat

text \<open>The drawing calls a frame issues, in order.\<close>

datatype gfx =
    Background nat
  | Stroke nat
  | StrokeWeight real
  | NoStroke
  | Fill color
  | Rect real real real real
  | Line jsnum jsnum jsnum jsnum

text \<open>The host's random source: \<open>rnd k lo hi\<close> is what the \<open>k\<close>-th call of
  \<open>random\<close> of the run returns when asked for a number between \<open>lo\<close> and \<open>hi\<close>;
  \<open>random(n)\<close> is \<open>random(0, n)\<close>.\<close>

type_synonym rand = "nat \<Rightarrow> real \<Rightarrow> real \<Rightarrow> real"

section \<open>Host helpers\<close>

text \<open>Modelled from the spec: p5's \<open>constrain\<close> is not in the repository; the spec
  calls it a clamp of the value to the interval between the two bounds.\<close>

definition constrain :: "real \<Rightarrow> real \<Rightarrow> real \<Rightarrow> real" where
  "constrain n low high = max (min n high) low"

text \<open>Modelled from the spec: p5's \<open>lerp\<close> is not in the repository; the spec gives
  linear interpolation \<open>a + (b - a) * t\<close>. An operand that is not a number makes the
  result \<open>NaN\<close>.\<close>

fun lerp :: "jsnum \<Rightarrow> jsnum \<Rightarrow> real \<Rightarrow> jsnum" where
  "lerp (Num a) (Num b) t = Num (a + (b - a) * t)"
| "lerp _ _ _ = NaN"

section \<open>Grid bookkeeping\<close>

text \<open>The object literal pushed for row \<open>j\<close> and column \<open>i\<close>.\<close>

definition mk_cell :: "real list \<Rightarrow> real list \<Rightarrow> nat \<Rightarrow> nat \<Rightarrow> cell" where
  "mk_cell xs ys j i =
     \<lparr> cell_x = xs ! i, cell_y = ys ! j,
       cell_w = xs ! (i + 1) - xs ! i, cell_h = ys ! (j + 1) - ys ! j,
       cell_i = i, cell_j = j \<rparr>"

text \<open>\<open>computeCellsFor(vArr, hArr)\<close>: the boundary arrays are the sorted copies of the
  cut lists between the canvas edges; the outer loop runs over rows \<open>j\<close>, the inner one
  over columns \<open>i\<close>, each pushing one cell. Every index read lies inside the boundary
  array, since \<open>i + 1 < length xs\<close> and \<open>j + 1 < length ys\<close> in the loops.\<close>

definition computeCellsFor :: "real list \<Rightarrow> real list \<Rightarrow> cell list" where
  "computeCellsFor vArr hArr =
     (let xs = 0 # sort vArr @ [W];
          ys = 0 # sort hArr @ [H]
      in concat (map (\<lambda>j. map (\<lambda>i. mk_cell xs ys j i)
          [0..<length xs - 1]) [0..<length ys - 1]))"

section \<open>Utilities\<close>

definition triesLimit :: nat where
  "triesLimit = 5000"

text \<open>The rejection loop of \<open>makeRandomLines\<close>, from a state \<open>(picks, tries)\<close> to the
  state in which the loop condition fails. \<open>k0\<close> is the number of calls of \<open>random\<close>
  made before the function was entered.\<close>

function makeRandomLines_loop ::
  "rand \<Rightarrow> nat \<Rightarrow> nat \<Rightarrow> real \<Rightarrow> real \<Rightarrow> real \<Rightarrow> real list \<Rightarrow> nat \<Rightarrow> real list \<times> nat" where
  "makeRandomLines_loop rnd k0 count span' margin minGap picks tries =
     (if length picks < count \<and> tries < triesLimit then
        (let x = rnd (k0 + tries) (margin + LINE_W) (span' - margin - LINE_W)
         in makeRandomLines_loop rnd k0 count span' margin minGap
              (if list_all (\<lambda>p. \<bar>p - x\<bar> \<ge> minGap) picks then picks @ [x] else picks)
              (tries + 1))
      else (picks, tries))"
  by pat_completeness auto
termination
  by (relation "measure (\<lambda>(rnd, k0, count, span', margin, minGap, picks, tries). triesLimit - tries)")
    auto

declare makeRandomLines_loop.simps [simp del]

text \<open>\<open>makeRandomLines(count, span, margin, minGap)\<close>: the picks, sorted. The
  parameter \<open>span\<close> is written \<open>span'\<close>, and \<open>count\<close> is a natural number as at both
  calls, where it is an array length.\<close>

definition makeRandomLines :: "rand \<Rightarrow> nat \<Rightarrow> nat \<Rightarrow> real \<Rightarrow> real \<Rightarrow> real \<Rightarrow> real list" where
  "makeRandomLines rnd k0 count span' margin minGap =
     sort (fst (makeRandomLines_loop rnd k0 count span' margin minGap [] 0))"

text \<open>The value of \<open>tries\<close> when \<open>makeRandomLines\<close> returns: the number of calls of
  \<open>random\<close> it made.\<close>

definition makeRandomLines_tries :: "rand \<Rightarrow> nat \<Rightarrow> nat \<Rightarrow> real \<Rightarrow> real \<Rightarrow> real \<Rightarrow> nat" where
  "makeRandomLines_tries rnd k0 count span' margin minGap =
     snd (makeRandomLines_loop rnd k0 count span' margin minGap [] 0)"

text \<open>The index array of \<open>shuffleInPlace\<close> as a JavaScript object: its elements,
  and the properties stored under integers that are not array indices. An integer is an
  array index from 0 up to \<open>2^32 - 2\<close>.\<close>

type_synonym js_array = "key list \<times> (int \<rightharpoonup> key)"

definition is_array_index :: "int \<Rightarrow> bool" where
  "is_array_index j \<longleftrightarrow> 0 \<le> j \<and> j < 2 ^ 32 - 1"

text \<open>A read \<open>arr[j]\<close>: the element at \<open>j\<close> when there is one, otherwise the property
  stored under \<open>j\<close>, otherwise \<open>undefined\<close>. A write \<open>arr[j] = v\<close>: inside the array
  it replaces the element; at an array index at or past the end it extends the array,
  the skipped positions reading as \<open>undefined\<close>; at any other integer it stores a
  property and leaves the elements as they are.\<close>

definition js_get :: "js_array \<Rightarrow> int \<Rightarrow> key" where
  "js_get arr j =
     (if 0 \<le> j \<and> j < int (length (fst arr)) then fst arr ! nat j
      else (case snd arr j of Some v \<Rightarrow> v | None \<Rightarrow> Undefined))"

definition js_set :: "js_array \<Rightarrow> int \<Rightarrow> key \<Rightarrow> js_array" where
  "js_set arr j v =
     (if 0 \<le> j \<and> j < int (length (fst arr)) then ((fst arr)[nat j := v], snd arr)
      else if is_array_index j then
        (fst arr @ replicate (nat j - length (fst arr)) Undefined @ [v], snd arr)
      else (fst arr, (snd arr)(j \<mapsto> v)))"

text \<open>The loop of \<open>shuffleInPlace\<close>, with \<open>i\<close> running down to 1; \<open>k\<close> counts the
  calls of \<open>random\<close>.\<close>

fun shuffle_loop :: "rand \<Rightarrow> nat \<Rightarrow> js_array \<Rightarrow> nat \<Rightarrow> js_array" where
  "shuffle_loop rnd k arr 0 = arr"
| "shuffle_loop rnd k arr (Suc n) =
     (let i = Suc n;
          j = \<lfloor>rnd k 0 (real i + 1)\<rfloor>;
          t = js_get arr (int i);
          arr1 = js_set arr (int i) (js_get arr j);
          arr2 = js_set arr1 j t
      in shuffle_loop rnd (k + 1) arr2 n)"

text \<open>\<open>shuffleInPlace(arr)\<close> on an array without extra properties; the caller reads
  only the elements and the length of the result.\<close>

definition shuffleInPlace :: "rand \<Rightarrow> nat \<Rightarrow> key list \<Rightarrow> key list" where
  "shuffleInPlace rnd k arr = fst (shuffle_loop rnd k (arr, Map.empty) (length arr - 1))"

text \<open>\<open>lerpArray(a, b, t)\<close>: one entry for every position of \<open>b\<close>.\<close>

definition lerpArray :: "real list \<Rightarrow> real list \<Rightarrow> real \<Rightarrow> jsnum list" where
  "lerpArray a b t = map (\<lambda>i. lerp (js_index a i) (js_index b i) t) [0..<length b]"

text \<open>\<open>xIndexFor(x, xs)\<close>: the first \<open>i < xs.length - 1\<close> with
  \<open>xs[i] <= x < xs[i+1]\<close>, and \<open>xs.length - 2\<close> when the loop finds none. The result
  is an integer because the fallback is negative for arrays shorter than two.\<close>

definition xIndexFor :: "real \<Rightarrow> real list \<Rightarrow> int" where
  "xIndexFor x xs =
     (case find (\<lambda>i. x \<ge> xs ! i \<and> x < xs ! (i + 1)) [0..<length xs - 1] of
        Some i \<Rightarrow> int i
      | None \<Rightarrow> int (length xs) - 2)"

definition yIndexFor :: "real \<Rightarrow> real list \<Rightarrow> int" where
  "yIndexFor y ys =
     (case find (\<lambda>j. y \<ge> ys ! j \<and> y < ys ! (j + 1)) [0..<length ys - 1] of
        Some j \<Rightarrow> int j
      | None \<Rightarrow> int (length ys) - 2)"

text \<open>\<open>colorMapFromTargets(targets, vArr, hArr)\<close>: each anchor in turn sets the entry
  of the cell it falls in, a later anchor overwriting an earlier one.\<close>

definition colorMapFromTargets :: "target list \<Rightarrow> real list \<Rightarrow> real list \<Rightarrow> colormap" where
  "colorMapFromTargets targets vArr hArr =
     (let xs = 0 # sort vArr @ [W];
          ys = 0 # sort hArr @ [H]
      in fold (\<lambda>t m.
           let x = constrain (pcx t) 0 1 * W;
               y = constrain (pcy t) 0 1 * H;
               i = xIndexFor x xs;
               j = yIndexFor y ys;
               idx = j * (int (length xs) - 1) + i
           in m(Index idx \<mapsto> col t)) targets Map.empty)"

definition easeInOutCubic :: "real \<Rightarrow> real" where
  "easeInOutCubic t = (if t < 0.5 then 4 * t * t * t else 1 - (- 2 * t + 2) ^ 3 / 2)"

section \<open>Rendering\<close>

definition drawGrid :: "jsnum list \<Rightarrow> jsnum list \<Rightarrow> gfx list" where
  "drawGrid vArr hArr =
     [Stroke 0, StrokeWeight LINE_W]
     @ map (\<lambda>x. Line x (Num 0) x (Num H)) (Num 0 # vArr @ [Num W])
     @ map (\<lambda>y. Line (Num 0) y (Num W) y) (Num 0 # hArr @ [Num H])"

text \<open>\<open>drawColorsFromMap(map, vArr, hArr)\<close>: a cell whose index has no entry is
  skipped; a cell with an entry is filled with its colour.\<close>

definition drawColorsFromMap :: "colormap \<Rightarrow> real list \<Rightarrow> real list \<Rightarrow> gfx list" where
  "drawColorsFromMap m vArr hArr =
     (let xs = 0 # sort vArr @ [W];
          ys = 0 # sort hArr @ [H]
      in NoStroke # concat (map (\<lambda>j. concat (map (\<lambda>i.
           (case m (Index (int j * (int (length xs) - 1) + int i)) of
              None \<Rightarrow> []
            | Some c \<Rightarrow> [Fill c, Rect (xs ! i) (ys ! j) (xs ! (i + 1) - xs ! i) (ys ! (j + 1) - ys ! j)]))
          [0..<length xs - 1])) [0..<length ys - 1]))"

section \<open>The sketch's state and its handlers\<close>

datatype mode = Original | Randomized | Transition

text \<open>The global variables of the sketch. \<open>randomCalls\<close> is not a variable of the
  source: it counts the calls of \<open>random\<close> made so far, so that every call reads a
  fresh value of the host's source.\<close>

record state =
  vLines :: "real list"
  hLines :: "real list"
  cells :: "cell list"
  originalV :: "real list"
  originalH :: "real list"
  originalColorsMap :: colormap
  originalColorTargets :: "target list"
  randomColorsMap :: colormap
  mode :: mode
  tStart :: real
  vStart :: "real list"
  hStart :: "real list"
  randomCalls :: nat

text \<open>The globals as they are initialised at load time.\<close>

definition initial :: state where
  "initial =
     \<lparr> vLines = [], hLines = [], cells = [], originalV = [], originalH = [],
       originalColorsMap = Map.empty, originalColorTargets = [],
       randomColorsMap = Map.empty, mode = Original, tStart = 0,
       vStart = [], hStart = [], randomCalls = 0 \<rparr>"

definition recomputeCells :: "state \<Rightarrow> state" where
  "recomputeCells s = s\<lparr> cells := computeCellsFor (vLines s) (hLines s) \<rparr>"

text \<open>The source's \<open>setup()\<close>, named \<open>sketch_setup\<close> because \<open>setup\<close> is a keyword
  of the theory language. The canvas calls have no effect on the state.\<close>

definition sketch_setup :: "state \<Rightarrow> state" where
  "sketch_setup s =
     (let s1 = s\<lparr> originalV := [90, 320, 360, 560], originalH := [90, 250, 290, 380, 540] \<rparr>;
          s2 = recomputeCells (s1\<lparr> vLines := originalV s1, hLines := originalH s1 \<rparr>);
          s3 = s2\<lparr> originalColorTargets :=
                 [ \<lparr> pcx = 0.24, pcy = 0.63, col = Color 25 80 180 \<rparr>,
                   \<lparr> pcx = 0.83, pcy = 0.22, col = Color 25 80 180 \<rparr>,
                   \<lparr> pcx = 0.06, pcy = 0.05, col = Color 210 25 45 \<rparr>,
                   \<lparr> pcx = 0.51, pcy = 0.78, col = Color 210 25 45 \<rparr>,
                   \<lparr> pcx = 0.38, pcy = 0.18, col = Color 245 205 35 \<rparr>,
                   \<lparr> pcx = 0.90, pcy = 0.92, col = Color 245 205 35 \<rparr> ] \<rparr>
      in s3\<lparr> originalColorsMap :=
              colorMapFromTargets (originalColorTargets s3) (originalV s3) (originalH s3) \<rparr>)"

text \<open>\<open>draw()\<close> at clock reading \<open>now\<close>: the drawing calls of the frame and the state
  after it.\<close>

definition draw :: "real \<Rightarrow> state \<Rightarrow> gfx list \<times> state" where
  "draw now s =
     (if mode s = Transition then
        (let u = constrain ((now - tStart s) / TRANSITION_MS) 0 1;
             t = easeInOutCubic u;
             vCurr = lerpArray (vStart s) (originalV s) t;
             hCurr = lerpArray (hStart s) (originalH s) t
         in (Background 255 # drawGrid vCurr hCurr,
             if u \<ge> 1 then
               s\<lparr> vLines := originalV s, hLines := originalH s,
                  cells := computeCellsFor (originalV s) (originalH s),
                  mode := Original \<rparr>
             else s))
      else
        (Background 255
           # (if mode s = Randomized
              then drawColorsFromMap (randomColorsMap s) (vLines s) (hLines s)
              else drawColorsFromMap (originalColorsMap s) (vLines s) (hLines s))
           @ drawGrid (map Num (vLines s)) (map Num (hLines s)),
         s))"

definition mousePressed :: "rand \<Rightarrow> state \<Rightarrow> state" where
  "mousePressed rnd s =
     (let k0 = randomCalls s;
          v = makeRandomLines rnd k0 (length (originalV s)) W MARGIN 60;
          k1 = k0 + makeRandomLines_tries rnd k0 (length (originalV s)) W MARGIN 60;
          h = makeRandomLines rnd k1 (length (originalH s)) H MARGIN 60;
          k2 = k1 + makeRandomLines_tries rnd k1 (length (originalH s)) H MARGIN 60;
          s1 = recomputeCells (s\<lparr> vLines := v, hLines := h \<rparr>);
          palette = map col (originalColorTargets s1);
          indices = shuffleInPlace rnd k2 (map (\<lambda>n. Index (int n)) [0..<length (cells s1)]);
          m = fold (\<lambda>i m. m(indices ! i \<mapsto> palette ! (i mod length palette)))
                [0..<min (length palette) (length indices)] Map.empty
      in s1\<lparr> randomColorsMap := m, mode := Randomized,
             randomCalls := k2 + (length (cells s1) - 1) \<rparr>)"

text \<open>\<open>mouseReleased()\<close> at clock reading \<open>now\<close>.\<close>

definition mouseReleased :: "real \<Rightarrow> state \<Rightarrow> state" where
  "mouseReleased now s =
     s\<lparr> vStart := vLines s, hStart := hLines s, tStart := now, mode := Transition \<rparr>"

text \<open>The host calls \<open>setup\<close> once and then the handlers, one at a time; \<open>Draw\<close> and
  \<open>MouseReleased\<close> carry the reading of \<open>millis()\<close>.\<close>

datatype event = Draw real | MousePressed | MouseReleased real

fun step :: "rand \<Rightarrow> state \<Rightarrow> event \<Rightarrow> state" where
  "step rnd s (Draw now) = snd (draw now s)"
| "step rnd s MousePressed = mousePressed rnd s"
| "step rnd s (MouseReleased now) = mouseReleased now s"

definition run :: "rand \<Rightarrow> event list \<Rightarrow> state" where
  "run rnd evs = foldl (step rnd) (sketch_setup initial) evs"

section \<open>What every reachable state satisfies\<close>

text \<open>The original composition is never changed after setup, neither cut list grows
  beyond it, the original mode shows exactly the original cuts, and the cells are those
  of the authoritative cuts.\<close>

definition sketch_inv :: "state \<Rightarrow> bool" where
  "sketch_inv s \<longleftrightarrow>
     originalV s = [90, 320, 360, 560]
     \<and> originalH s = [90, 250, 290, 380, 540]
     \<and> originalColorTargets s = originalColorTargets (sketch_setup initial)
     \<and> originalColorsMap s = originalColorsMap (sketch_setup initial)
     \<and> length (vLines s) \<le> 4 \<and> length (hLines s) \<le> 5
     \<and> (mode s = Original \<longrightarrow> vLines s = originalV s \<and> hLines s = originalH s)
     \<and> cells s = computeCellsFor (vLines s) (hLines s)"

section \<open>Two random sources for the examples\<close>

text \<open>A source that walks through the requested interval in eight steps, and one that
  always answers with the lower bound.\<close>

definition sample_rand :: rand where
  "sample_rand k lo hi = lo + (hi - lo) * real (k mod 8) / 8"

definition stuck_rand :: rand where
  "stuck_rand k lo hi = lo"

section \<open>Enumeration of the grid\<close>

lemma row_block:
  "map (\<lambda>k. f (k div c) (k mod c)) [r * c..<r * c + c] = map (\<lambda>i. f r i) [0..<c]"
proof -
  have "[r * c..<r * c + c] = map (\<lambda>i. i + r * c) [0..<c]"
    by (simp add: map_add_upt add.commute)
  then show ?thesis
    by (simp add: comp_def)
qed

lemma grid_enum:
  "concat (map (\<lambda>j. map (\<lambda>i. f j i) [0..<c]) [0..<r])
     = map (\<lambda>k. f (k div c) (k mod c)) [0..<r * c]"
proof (induction r)
  case 0
  show ?case by simp
next
  case (Suc r)
  have "[0..<r * c + c] = [0..<r * c] @ [r * c..<r * c + c]"
    using upt_add_eq_append [of 0 "r * c" c] by simp
  moreover have "Suc r * c = r * c + c"
    by simp
  ultimately have split: "[0..<Suc r * c] = [0..<r * c] @ [r * c..<r * c + c]"
    by (simp only:)
  have "concat (map (\<lambda>j. map (\<lambda>i. f j i) [0..<c]) [0..<Suc r])
      = concat (map (\<lambda>j. map (\<lambda>i. f j i) [0..<c]) [0..<r]) @ map (\<lambda>i. f r i) [0..<c]"
    by simp
  also have "\<dots> = map (\<lambda>k. f (k div c) (k mod c)) [0..<r * c]
      @ map (\<lambda>k. f (k div c) (k mod c)) [r * c..<r * c + c]"
    by (simp only: Suc.IH row_block)
  also have "\<dots> = map (\<lambda>k. f (k div c) (k mod c)) [0..<Suc r * c]"
    by (simp only: split map_append)
  finally show ?case .
qed

lemma computeCellsFor_enum:
  assumes "c = length vArr + 1" and "r = length hArr + 1"
  shows "computeCellsFor vArr hArr =
     map (\<lambda>k. mk_cell (0 # sort vArr @ [W]) (0 # sort hArr @ [H]) (k div c) (k mod c))
       [0..<r * c]"
proof -
  have "computeCellsFor vArr hArr =
      concat (map (\<lambda>j. map (\<lambda>i. mk_cell (0 # sort vArr @ [W]) (0 # sort hArr @ [H]) j i)
        [0..<c]) [0..<r])"
    unfolding computeCellsFor_def Let_def mk_cell_def assms by simp
  then show ?thesis
    by (simp only: grid_enum)
qed

lemma mk_cell_sel [simp]:
  "cell_i (mk_cell xs ys j i) = i" "cell_j (mk_cell xs ys j i) = j"
  by (simp_all add: mk_cell_def)

lemma div_mod_index: "map (\<lambda>k. k div c * c + k mod c) [0..<n] = [0..<(n::nat)]"
  by (simp add: map_idI)

text \<open>C1. For cut lists of lengths m (vertical) and n (horizontal), computeCellsFor
  returns exactly (m+1)*(n+1) cells in row-major order: the cell at position k of the
  result has row k div (m+1) and column k mod (m+1), so the linear indices
  row * columnCount + column are 0, 1, ..., (m+1)*(n+1) - 1 in this order. With both
  cut lists empty the result is the single full-canvas cell.\<close>

theorem computeCellsFor_count_and_order:
  "length (computeCellsFor vArr hArr) = (length vArr + 1) * (length hArr + 1)
   \<and> map (\<lambda>c. cell_j c * (length vArr + 1) + cell_i c) (computeCellsFor vArr hArr)
       = [0..<(length vArr + 1) * (length hArr + 1)]
   \<and> map cell_j (computeCellsFor vArr hArr)
       = map (\<lambda>k. k div (length vArr + 1)) [0..<(length vArr + 1) * (length hArr + 1)]
   \<and> map cell_i (computeCellsFor vArr hArr)
       = map (\<lambda>k. k mod (length vArr + 1)) [0..<(length vArr + 1) * (length hArr + 1)]
   \<and> computeCellsFor [] []
       = [\<lparr> cell_x = 0, cell_y = 0, cell_w = W, cell_h = H, cell_i = 0, cell_j = 0 \<rparr>]"
proof -
  define c where "c = length vArr + 1"
  define r where "r = length hArr + 1"
  have enum: "computeCellsFor vArr hArr =
     map (\<lambda>k. mk_cell (0 # sort vArr @ [W]) (0 # sort hArr @ [H]) (k div c) (k mod c))
       [0..<c * r]"
    using computeCellsFor_enum [OF c_def r_def] by (simp only: mult.commute)
  have len: "length (computeCellsFor vArr hArr) = c * r"
    unfolding enum by (simp only: length_map length_upt diff_zero)
  have idx: "map (\<lambda>x. cell_j x * c + cell_i x) (computeCellsFor vArr hArr) = [0..<c * r]"
    unfolding enum by (simp only: map_map comp_def mk_cell_sel div_mod_index)
  have rows: "map cell_j (computeCellsFor vArr hArr) = map (\<lambda>k. k div c) [0..<c * r]"
    unfolding enum by (simp only: map_map comp_def mk_cell_sel)
  have cols: "map cell_i (computeCellsFor vArr hArr) = map (\<lambda>k. k mod c) [0..<c * r]"
    unfolding enum by (simp only: map_map comp_def mk_cell_sel)
  have single: "computeCellsFor [] []
       = [\<lparr> cell_x = 0, cell_y = 0, cell_w = W, cell_h = H, cell_i = 0, cell_j = 0 \<rparr>]"
    by (simp add: computeCellsFor_def mk_cell_def)
  from len idx rows cols single show ?thesis
    unfolding c_def r_def by (intro conjI)
qed

section \<open>The index lookups are total\<close>

lemma xIndexFor_range:
  assumes "2 \<le> length xs"
  shows "0 \<le> xIndexFor x xs \<and> xIndexFor x xs \<le> int (length xs) - 2"
proof (cases "find (\<lambda>i. x \<ge> xs ! i \<and> x < xs ! (i + 1)) [0..<length xs - 1]")
  case None
  then show ?thesis using assms by (simp add: xIndexFor_def)
next
  case (Some i)
  then have "i \<in> set [0..<length xs - 1]"
    by (auto simp: find_Some_iff)
  then have "i < length xs - 1" by simp
  with Some show ?thesis by (simp add: xIndexFor_def)
qed

lemma xIndexFor_fallback:
  assumes "\<And>i. i < length xs - 1 \<Longrightarrow> \<not> (xs ! i \<le> x \<and> x < xs ! (i + 1))"
  shows "xIndexFor x xs = int (length xs) - 2"
proof -
  have "find (\<lambda>i. x \<ge> xs ! i \<and> x < xs ! (i + 1)) [0..<length xs - 1] = None"
    using assms by (simp add: find_None_iff)
  then show ?thesis by (simp add: xIndexFor_def)
qed

lemma yIndexFor_eq: "yIndexFor y ys = xIndexFor y ys"
  by (simp add: xIndexFor_def yIndexFor_def)

lemma xIndexFor_outside:
  assumes "sorted xs" and "x < hd xs \<or> last xs \<le> x" 
  shows "xIndexFor x xs = int (length xs) - 2"
proof (rule xIndexFor_fallback)
  fix i assume i: "i < length xs - 1"
  then have ne: "xs \<noteq> []" by auto
  from assms(2) show "\<not> (xs ! i \<le> x \<and> x < xs ! (i + 1))"
  proof
    assume "x < hd xs"
    moreover have "hd xs \<le> xs ! i"
      using assms(1) i ne by (simp add: hd_conv_nth sorted_nth_mono)
    ultimately show ?thesis by simp
  next
    assume "last xs \<le> x"
    moreover have "xs ! (i + 1) \<le> last xs"
      using assms(1) i ne by (simp add: last_conv_nth sorted_nth_mono)
    ultimately show ?thesis by simp
  qed
qed

text \<open>C10. For every real coordinate and every boundary array of length at least 2,
  xIndexFor and yIndexFor return an index between 0 and length - 2. When no half-open
  interval [xs[i], xs[i+1]) holds the point, the fallback returns length - 2, the last
  interval: so a point on the right edge, past it, or before the first boundary of a
  sorted array is placed in the last interval.\<close>

theorem index_lookup_total:
  assumes "2 \<le> length xs"
  shows "0 \<le> xIndexFor x xs \<and> xIndexFor x xs \<le> int (length xs) - 2
       \<and> 0 \<le> yIndexFor x xs \<and> yIndexFor x xs \<le> int (length xs) - 2
       \<and> ((\<forall>i. i < length xs - 1 \<longrightarrow> \<not> (xs ! i \<le> x \<and> x < xs ! (i + 1)))
            \<longrightarrow> xIndexFor x xs = int (length xs) - 2 \<and> yIndexFor x xs = int (length xs) - 2)
       \<and> (sorted xs \<and> (x < hd xs \<or> last xs \<le> x)
            \<longrightarrow> xIndexFor x xs = int (length xs) - 2 \<and> yIndexFor x xs = int (length xs) - 2)"
  using xIndexFor_range [OF assms, of x] xIndexFor_fallback [of xs x] xIndexFor_outside [of xs x]
  by (simp only: yIndexFor_eq) blast

theorem index_lookup_total_witness:
  "2 \<le> length [0, 90, 320, 360, 560, 820 :: real]
   \<and> xIndexFor 820 [0, 90, 320, 360, 560, 820] = 4
   \<and> xIndexFor 1000 [0, 90, 320, 360, 560, 820] = 4
   \<and> xIndexFor (- 5) [0, 90, 320, 360, 560, 820] = 4
   \<and> yIndexFor 600 [0, 90, 250, 290, 380, 540, 600] = 5
   \<and> xIndexFor 196.8 [0, 90, 320, 360, 560, 820] = 1"
proof -
  have len: "2 \<le> length [0, 90, 320, 360, 560, 820 :: real]" by simp
  have s: "sorted [0, 90, 320, 360, 560, 820 :: real]" by simp
  have a: "xIndexFor 820 [0, 90, 320, 360, 560, 820] = 4"
    using index_lookup_total [OF len, of 820] s by simp
  have b: "xIndexFor 1000 [0, 90, 320, 360, 560, 820] = 4"
    using index_lookup_total [OF len, of 1000] s by simp
  have c: "xIndexFor (- 5) [0, 90, 320, 360, 560, 820] = 4"
    using index_lookup_total [OF len, of "- 5"] s by simp
  have d: "yIndexFor 600 [0, 90, 250, 290, 380, 540, 600] = 5"
    by (simp add: yIndexFor_def upt_rec)
  have e: "xIndexFor 196.8 [0, 90, 320, 360, 560, 820] = 1"
    by (simp add: xIndexFor_def upt_rec)
  from len a b c d e show ?thesis by (intro conjI)
qed

section \<open>The original composition\<close>

lemma original_state:
  "originalV (sketch_setup initial) = [90, 320, 360, 560]"
  "originalH (sketch_setup initial) = [90, 250, 290, 380, 540]"
  "vLines (sketch_setup initial) = [90, 320, 360, 560]"
  "hLines (sketch_setup initial) = [90, 250, 290, 380, 540]"
  "mode (sketch_setup initial) = Original"
  "originalColorTargets (sketch_setup initial) =
     [ \<lparr> pcx = 0.24, pcy = 0.63, col = Color 25 80 180 \<rparr>,
       \<lparr> pcx = 0.83, pcy = 0.22, col = Color 25 80 180 \<rparr>,
       \<lparr> pcx = 0.06, pcy = 0.05, col = Color 210 25 45 \<rparr>,
       \<lparr> pcx = 0.51, pcy = 0.78, col = Color 210 25 45 \<rparr>,
       \<lparr> pcx = 0.38, pcy = 0.18, col = Color 245 205 35 \<rparr>,
       \<lparr> pcx = 0.90, pcy = 0.92, col = Color 245 205 35 \<rparr> ]"
  by (simp_all add: sketch_setup_def initial_def recomputeCells_def Let_def)

lemma original_map_eq:
  "originalColorsMap (sketch_setup initial) =
     colorMapFromTargets (originalColorTargets (sketch_setup initial))
       [90, 320, 360, 560] [90, 250, 290, 380, 540]"
  by (simp add: sketch_setup_def initial_def recomputeCells_def Let_def)

lemma original_boundaries:
  "0 # sort [90, 320, 360, 560 :: real] @ [W] = [0, 90, 320, 360, 560, 820]"
  "0 # sort [90, 250, 290, 380, 540 :: real] @ [H] = [0, 90, 250, 290, 380, 540, 600]"
  by (simp_all add: W_def H_def)

lemma original_map_value:
  "colorMapFromTargets (originalColorTargets (sketch_setup initial))
       [90, 320, 360, 560] [90, 250, 290, 380, 540]
   = [Index 16 \<mapsto> Color 25 80 180, Index 9 \<mapsto> Color 25 80 180,
      Index 0 \<mapsto> Color 210 25 45, Index 23 \<mapsto> Color 210 25 45,
      Index 6 \<mapsto> Color 245 205 35, Index 29 \<mapsto> Color 245 205 35]"
  unfolding colorMapFromTargets_def original_state original_boundaries Let_def
  by (simp add: xIndexFor_def yIndexFor_def constrain_def W_def H_def upt_rec)

text \<open>C4. With the original configuration on the 820 x 600 canvas, the anchor
  (0.24, 0.63) scales to the point (196.8, 378); among the column boundaries
  [0, 90, 320, 360, 560, 820] it falls in column 1, among the row boundaries
  [0, 90, 250, 290, 380, 540, 600] in row 3, and the colour map built at setup maps cell
  index 3 * 5 + 1 = 16 to the blue of that anchor.\<close>

theorem original_blue_anchor:
  "constrain 0.24 0 1 * W = 196.8 \<and> constrain 0.63 0 1 * H = 378
   \<and> 0 # sort [90, 320, 360, 560] @ [W] = [0, 90, 320, 360, 560, 820]
   \<and> 0 # sort [90, 250, 290, 380, 540] @ [H] = [0, 90, 250, 290, 380, 540, 600]
   \<and> xIndexFor 196.8 [0, 90, 320, 360, 560, 820] = 1
   \<and> yIndexFor 378 [0, 90, 250, 290, 380, 540, 600] = 3
   \<and> colorMapFromTargets (originalColorTargets (sketch_setup initial))
        (originalV (sketch_setup initial)) (originalH (sketch_setup initial)) (Index (3 * 5 + 1))
      = Some (Color 25 80 180)
   \<and> originalColorsMap (sketch_setup initial) (Index 16) = Some (Color 25 80 180)"
proof -
  have a: "constrain 0.24 0 1 * W = 196.8" "constrain 0.63 0 1 * H = 378"
    by (simp_all add: constrain_def W_def H_def)
  have b: "xIndexFor 196.8 [0, 90, 320, 360, 560, 820] = 1"
    by (simp add: xIndexFor_def upt_rec)
  have c: "yIndexFor 378 [0, 90, 250, 290, 380, 540, 600] = 3"
    by (simp add: yIndexFor_def upt_rec)
  have d: "colorMapFromTargets (originalColorTargets (sketch_setup initial))
        (originalV (sketch_setup initial)) (originalH (sketch_setup initial)) (Index (3 * 5 + 1))
      = Some (Color 25 80 180)"
    unfolding original_state(1,2) original_map_value by simp
  have e: "originalColorsMap (sketch_setup initial) (Index 16) = Some (Color 25 80 180)"
    unfolding original_map_eq original_map_value by simp
  from a b c d e original_boundaries show ?thesis by (intro conjI)
qed

section \<open>Easing and interpolation\<close>

lemma ease_0: "easeInOutCubic 0 = 0"
  by (simp add: easeInOutCubic_def)

lemma ease_1: "easeInOutCubic 1 = 1"
  by (simp add: easeInOutCubic_def)

lemma lerpArray_nth:
  "i < length b \<Longrightarrow>
     lerpArray a b t ! i = (if i < length a then Num (a ! i + (b ! i - a ! i) * t) else NaN)"
  by (simp add: lerpArray_def js_index_def)

lemma length_lerpArray: "length (lerpArray a b t) = length b"
  by (simp add: lerpArray_def)

lemma lerpArray_start:
  assumes "length a = length b"
  shows "lerpArray a b 0 = map Num a"
  by (rule nth_equalityI) (simp_all add: length_lerpArray lerpArray_nth assms)

lemma lerpArray_target:
  assumes "length a = length b"
  shows "lerpArray a b 1 = map Num b"
  by (rule nth_equalityI) (simp_all add: length_lerpArray lerpArray_nth assms)

lemma ease_mono:
  assumes "0 \<le> s" and "s \<le> t" and "t \<le> 1"
  shows "easeInOutCubic s \<le> easeInOutCubic t"
proof -
  have cube: "4 * x * x * x = 4 * x ^ 3" for x :: real
    by (simp add: power3_eq_cube)
  consider (low) "t < 1 / 2" | (cross) "s < 1 / 2" "1 / 2 \<le> t" | (high) "1 / 2 \<le> s"
    by linarith
  then show ?thesis
  proof cases
    case low
    then have "s < 1 / 2" using assms(2) by simp
    moreover have "s ^ 3 \<le> t ^ 3"
      using assms(2,1) by (rule power_mono)
    ultimately show ?thesis
      using low by (simp add: easeInOutCubic_def cube)
  next
    case cross
    have "s ^ 3 \<le> (1 / 2) ^ 3"
      using assms(1) cross(1) by (intro power_mono) simp_all
    then have lo: "4 * s ^ 3 \<le> 1 / 2"
      by (simp add: power3_eq_cube)
    have "(- 2 * t + 2) ^ 3 \<le> 1"
      using cross(2) assms(3) by (intro power_le_one) simp_all
    then have hi: "1 / 2 \<le> 1 - (- 2 * t + 2) ^ 3 / 2"
      by simp
    from lo hi show ?thesis
      using cross by (simp add: easeInOutCubic_def cube)
  next
    case high
    then have t: "1 / 2 \<le> t" using assms(2) by simp
    have "(- 2 * t + 2) ^ 3 \<le> (- 2 * s + 2) ^ 3"
      using assms(2,3) by (intro power_mono) simp_all
    then show ?thesis
      using high t by (simp add: easeInOutCubic_def)
  qed
qed

text \<open>C9. For start and target cut lists of equal length, the eased interpolation
  (easeInOutCubic followed by the element-wise lerp) gives the start list at progress 0
  and the target list at progress 1, and easeInOutCubic is monotonically non-decreasing
  on [0, 1]. Numbers are the reals they denote.\<close>

theorem eased_interpolation_endpoints:
  assumes "length a = length b"
  shows "lerpArray a b (easeInOutCubic 0) = map Num a
       \<and> lerpArray a b (easeInOutCubic 1) = map Num b
       \<and> (\<forall>s t. 0 \<le> s \<and> s \<le> t \<and> t \<le> 1 \<longrightarrow> easeInOutCubic s \<le> easeInOutCubic t)"
  using lerpArray_start [OF assms] lerpArray_target [OF assms] ease_mono
  by (simp add: ease_0 ease_1)

theorem eased_interpolation_endpoints_witness:
  "length [18, 116, 214, 312 :: real] = length [90, 320, 360, 560 :: real]
   \<and> lerpArray [18, 116, 214, 312] [90, 320, 360, 560] (easeInOutCubic 0)
        = [Num 18, Num 116, Num 214, Num 312]
   \<and> lerpArray [18, 116, 214, 312] [90, 320, 360, 560] (easeInOutCubic 1)
        = [Num 90, Num 320, Num 360, Num 560]
   \<and> easeInOutCubic (1 / 4) \<le> easeInOutCubic (3 / 4)"
proof -
  have len: "length [18, 116, 214, 312 :: real] = length [90, 320, 360, 560 :: real]"
    by simp
  show ?thesis
    using eased_interpolation_endpoints [OF len] by simp
qed

text \<open>C5 as stated fails: with a start list shorter than the target, lerpArray returns
  a list, interpolated where the start list has an element and NaN after it.\<close>

theorem lerpArray_unequal_lengths_counterexample:
  "length [10 :: real] \<noteq> length [90, 320 :: real]
   \<and> lerpArray [10] [90, 320] (1 / 2) = [Num 50, NaN]
   \<and> lerpArray [10, 20, 30] [90, 320] (1 / 2) = [Num 50, Num 170]"
  by (simp add: lerpArray_def js_index_def upt_rec)

text \<open>C5, amended. lerpArray checks no lengths and signals nothing: for start and
  target lists of any lengths it returns a list as long as the target. Where both lists
  have an element the entry is the interpolated value, the entries past the end of the
  start list are NaN, and start elements past the end of the target are ignored.\<close>

theorem lerpArray_returns_for_any_lengths:
  "length (lerpArray a b t) = length b
   \<and> take (length a) (lerpArray a b t) = map (\<lambda>(x, y). Num (x + (y - x) * t)) (zip a b)
   \<and> drop (length a) (lerpArray a b t) = replicate (length b - length a) NaN"
proof -
  have "take (length a) (lerpArray a b t) = map (\<lambda>(x, y). Num (x + (y - x) * t)) (zip a b)"
    by (rule nth_equalityI) (simp_all add: length_lerpArray lerpArray_nth)
  moreover have "drop (length a) (lerpArray a b t) = replicate (length b - length a) NaN"
    by (rule nth_equalityI) (simp_all add: length_lerpArray lerpArray_nth)
  ultimately show ?thesis
    by (simp add: length_lerpArray)
qed

section \<open>The line generator\<close>

lemma loop_step:
  assumes "length picks < count" and "tries < triesLimit"
  shows "makeRandomLines_loop rnd k0 count span' margin minGap picks tries =
     makeRandomLines_loop rnd k0 count span' margin minGap
       (if list_all (\<lambda>p. \<bar>p - rnd (k0 + tries) (margin + LINE_W) (span' - margin - LINE_W)\<bar>
              \<ge> minGap) picks
        then picks @ [rnd (k0 + tries) (margin + LINE_W) (span' - margin - LINE_W)]
        else picks)
       (tries + 1)"
  using assms by (subst makeRandomLines_loop.simps) (simp add: Let_def)

lemma loop_stop:
  assumes "\<not> (length picks < count \<and> tries < triesLimit)"
  shows "makeRandomLines_loop rnd k0 count span' margin minGap picks tries = (picks, tries)"
  using assms by (subst makeRandomLines_loop.simps) auto

lemma loop_budget:
  assumes "length picks \<le> count" and "tries \<le> triesLimit"
    and "makeRandomLines_loop rnd k0 count span' margin minGap picks tries = (p, t)"
  shows "length p \<le> count \<and> t \<le> triesLimit \<and> (length p = count \<or> t = triesLimit)"
  using assms
proof (induction rnd k0 count span' margin minGap picks tries rule: makeRandomLines_loop.induct)
  case (1 rnd k0 count span' margin minGap picks tries)
  show ?case
  proof (cases "length picks < count \<and> tries < triesLimit")
    case True
    then have c: "length picks < count" and l: "tries < triesLimit"
      by simp_all
    have eq: "makeRandomLines_loop rnd k0 count span' margin minGap
       (if list_all (\<lambda>p. \<bar>p - rnd (k0 + tries) (margin + LINE_W) (span' - margin - LINE_W)\<bar>
              \<ge> minGap) picks
        then picks @ [rnd (k0 + tries) (margin + LINE_W) (span' - margin - LINE_W)]
        else picks)
       (tries + 1) = (p, t)"
      using "1.prems"(3) by (simp only: loop_step [OF c l])
    show ?thesis
    proof (rule "1.IH" [OF True refl _ _ eq])
      show "length (if list_all (\<lambda>p. \<bar>p - rnd (k0 + tries) (margin + LINE_W) (span' - margin - LINE_W)\<bar>
              \<ge> minGap) picks
        then picks @ [rnd (k0 + tries) (margin + LINE_W) (span' - margin - LINE_W)]
        else picks) \<le> count"
        using c by simp
      show "tries + 1 \<le> triesLimit"
        using l by simp
    qed
  next
    case False
    then have "(p, t) = (picks, tries)"
      using "1.prems"(3) by (simp only: loop_stop [OF False])
    then show ?thesis
      using False "1.prems"(1,2) by auto
  qed
qed

lemma makeRandomLines_budget:
  "makeRandomLines_tries rnd k0 count span' margin minGap \<le> triesLimit
   \<and> length (makeRandomLines rnd k0 count span' margin minGap) \<le> count
   \<and> (length (makeRandomLines rnd k0 count span' margin minGap) = count
      \<or> makeRandomLines_tries rnd k0 count span' margin minGap = triesLimit)"
proof -
  obtain p t where pt: "makeRandomLines_loop rnd k0 count span' margin minGap [] 0 = (p, t)"
    by (cases "makeRandomLines_loop rnd k0 count span' margin minGap [] 0")
  from loop_budget [OF _ _ pt] show ?thesis
    by (simp add: makeRandomLines_def makeRandomLines_tries_def pt)
qed

text \<open>C7. makeRandomLines always returns: its loop is a total function whose measure
  5000 - tries decreases with every attempt. It makes at most 5000 attempts, never
  returns more than count positions, and returns either exactly count positions or,
  with the budget of 5000 attempts used up, fewer than count.\<close>

theorem makeRandomLines_terminates_within_budget:
  "makeRandomLines_tries rnd k0 count span' margin minGap \<le> 5000
   \<and> length (makeRandomLines rnd k0 count span' margin minGap) \<le> count
   \<and> (length (makeRandomLines rnd k0 count span' margin minGap) = count
      \<or> (length (makeRandomLines rnd k0 count span' margin minGap) < count
         \<and> makeRandomLines_tries rnd k0 count span' margin minGap = 5000))"
  using makeRandomLines_budget [of rnd k0 count span' margin minGap]
  by (auto simp: triesLimit_def)


lemma loop_invariant:
  assumes init: "I picks"
    and step: "\<And>ps k. I ps \<Longrightarrow> length ps < count \<Longrightarrow>
        list_all (\<lambda>p. \<bar>p - rnd k (margin + LINE_W) (span' - margin - LINE_W)\<bar> \<ge> minGap) ps \<Longrightarrow>
        I (ps @ [rnd k (margin + LINE_W) (span' - margin - LINE_W)])"
  shows "I (fst (makeRandomLines_loop rnd k0 count span' margin minGap picks tries))"
  using assms
proof (induction rnd k0 count span' margin minGap picks tries rule: makeRandomLines_loop.induct)
  case (1 rnd k0 count span' margin minGap picks tries)
  show ?case
  proof (cases "length picks < count \<and> tries < triesLimit")
    case True
    then have c: "length picks < count" and l: "tries < triesLimit"
      by simp_all
    have "I (if list_all (\<lambda>p. \<bar>p - rnd (k0 + tries) (margin + LINE_W) (span' - margin - LINE_W)\<bar>
              \<ge> minGap) picks
        then picks @ [rnd (k0 + tries) (margin + LINE_W) (span' - margin - LINE_W)]
        else picks)"
      using "1.prems"(1) "1.prems"(2) [OF "1.prems"(1) c] by simp
    then show ?thesis
      using "1.IH" [OF True refl _ "1.prems"(2)] by (simp only: loop_step [OF c l])
  next
    case False
    then show ?thesis
      using "1.prems"(1) by (simp only: loop_stop [OF False] fst_conv)
  qed
qed

lemma gap_insort:
  assumes "sorted_wrt (\<lambda>p q. g \<le> \<bar>p - q\<bar>) xs" and "\<forall>y\<in>set xs. g \<le> \<bar>y - x\<bar>"
  shows "sorted_wrt (\<lambda>p q. g \<le> \<bar>p - q\<bar>) (insort x (xs :: real list))"
  using assms by (induction xs) (auto simp: abs_minus_commute set_insort_key)

lemma gap_sort:
  assumes "sorted_wrt (\<lambda>p q. g \<le> \<bar>p - q\<bar>) xs"
  shows "sorted_wrt (\<lambda>p q. g \<le> \<bar>p - q\<bar>) (sort (xs :: real list))"
  using assms
proof (induction xs)
  case Nil
  show ?case by simp
next
  case (Cons x xs)
  have "sorted_wrt (\<lambda>p q. g \<le> \<bar>p - q\<bar>) (insort x (sort xs))"
  proof (rule gap_insort)
    show "sorted_wrt (\<lambda>p q. g \<le> \<bar>p - q\<bar>) (sort xs)"
      using Cons by simp
    show "\<forall>y\<in>set (sort xs). g \<le> \<bar>y - x\<bar>"
      using Cons.prems by (auto simp: abs_minus_commute)
  qed
  then show ?case by simp
qed

lemma picks_gapped:
  "sorted_wrt (\<lambda>p q. minGap \<le> \<bar>p - q\<bar>)
     (fst (makeRandomLines_loop rnd k0 count span' margin minGap [] 0))"
  by (rule loop_invariant) (simp_all add: sorted_wrt_append list_all_iff)

lemma picks_in_range:
  assumes "\<forall>k. lo \<le> rnd k (margin + LINE_W) (span' - margin - LINE_W)
             \<and> rnd k (margin + LINE_W) (span' - margin - LINE_W) \<le> hi"
  shows "\<forall>x \<in> set (fst (makeRandomLines_loop rnd k0 count span' margin minGap [] 0)).
           lo \<le> x \<and> x \<le> hi"
  by (rule loop_invariant) (use assms in auto)

text \<open>C6. Provided the host's random source answers every request with a number
  inside the requested interval, the list returned by makeRandomLines(count, span,
  margin, minGap) is sorted ascending, any two of its elements at different positions
  differ by at least minGap, and every element lies in
  [margin + LINE_W, span - margin - LINE_W].\<close>

theorem makeRandomLines_sorted_gapped_in_range:
  assumes "\<forall>k. margin + LINE_W \<le> rnd k (margin + LINE_W) (span' - margin - LINE_W)
             \<and> rnd k (margin + LINE_W) (span' - margin - LINE_W) \<le> span' - margin - LINE_W"
  shows "sorted (makeRandomLines rnd k0 count span' margin minGap)
       \<and> (\<forall>i j. i < j \<and> j < length (makeRandomLines rnd k0 count span' margin minGap)
             \<longrightarrow> minGap \<le> makeRandomLines rnd k0 count span' margin minGap ! j
                             - makeRandomLines rnd k0 count span' margin minGap ! i)
       \<and> (\<forall>x \<in> set (makeRandomLines rnd k0 count span' margin minGap).
             margin + LINE_W \<le> x \<and> x \<le> span' - margin - LINE_W)"
proof -
  define r where "r = makeRandomLines rnd k0 count span' margin minGap"
  have srt: "sorted r"
    by (simp add: r_def makeRandomLines_def)
  have gap: "sorted_wrt (\<lambda>p q. minGap \<le> \<bar>p - q\<bar>) r"
    unfolding r_def makeRandomLines_def by (rule gap_sort) (rule picks_gapped)
  have pairs: "minGap \<le> r ! j - r ! i" if "i < j" and "j < length r" for i j
  proof -
    have "minGap \<le> \<bar>r ! i - r ! j\<bar>"
      using gap that by (simp add: sorted_wrt_iff_nth_less)
    moreover have "r ! i \<le> r ! j"
      using srt that by (simp add: sorted_iff_nth_mono)
    ultimately show ?thesis by simp
  qed
  have rng: "\<forall>x \<in> set r. margin + LINE_W \<le> x \<and> x \<le> span' - margin - LINE_W"
    using picks_in_range [where rnd = rnd and margin = margin and span' = span'
        and lo = "margin + LINE_W" and hi = "span' - margin - LINE_W"
        and ?k0.0 = k0 and count = count and minGap = minGap] assms
    by (simp add: r_def makeRandomLines_def)
  from srt pairs rng show ?thesis
    unfolding r_def by blast
qed

lemma sample_rand_in_range:
  assumes "lo \<le> hi"
  shows "lo \<le> sample_rand k lo hi \<and> sample_rand k lo hi \<le> hi"
proof -
  have "real (k mod 8) / 8 \<le> 1" by simp
  then have "(hi - lo) * (real (k mod 8) / 8) \<le> (hi - lo) * 1"
    using assms by (intro mult_left_mono) simp_all
  moreover have "0 \<le> (hi - lo) * (real (k mod 8) / 8)"
    using assms by simp
  ultimately show ?thesis
    by (simp add: sample_rand_def)
qed

lemma sample_lines:
  "makeRandomLines_loop sample_rand 0 4 820 10 60 [] 0 = ([18, 116, 214, 312], 4)"
  by (simp add: makeRandomLines_loop.simps sample_rand_def triesLimit_def LINE_W_def Let_def)

theorem makeRandomLines_sorted_gapped_in_range_witness:
  "makeRandomLines sample_rand 0 4 820 10 60 = [18, 116, 214, 312]
   \<and> sorted (makeRandomLines sample_rand 0 4 820 10 60)
   \<and> 60 \<le> makeRandomLines sample_rand 0 4 820 10 60 ! 1
          - makeRandomLines sample_rand 0 4 820 10 60 ! 0
   \<and> 10 + LINE_W \<le> makeRandomLines sample_rand 0 4 820 10 60 ! 0
   \<and> makeRandomLines sample_rand 0 4 820 10 60 ! 3 \<le> 820 - 10 - LINE_W"
proof -
  have hyp: "\<forall>k. 10 + LINE_W \<le> sample_rand k (10 + LINE_W) (820 - 10 - LINE_W)
             \<and> sample_rand k (10 + LINE_W) (820 - 10 - LINE_W) \<le> 820 - 10 - LINE_W"
    by (intro allI sample_rand_in_range) (simp add: LINE_W_def)
  have val: "makeRandomLines sample_rand 0 4 820 10 60 = [18, 116, 214, 312]"
    by (simp add: makeRandomLines_def sample_lines)
  from makeRandomLines_sorted_gapped_in_range
       [where rnd = sample_rand and margin = 10 and span' = 820
          and ?k0.0 = 0 and count = 4 and minGap = 60] hyp val
  show ?thesis
    by (simp add: LINE_W_def)
qed

section \<open>The interaction state machine\<close>

lemma run_Nil: "run rnd [] = sketch_setup initial"
  by (simp add: run_def)

lemma run_snoc: "run rnd (evs @ [e]) = step rnd (run rnd evs) e"
  by (simp add: run_def)

lemma mousePressed_fields:
  "vLines (mousePressed rnd s) = makeRandomLines rnd (randomCalls s) (length (originalV s)) W MARGIN 60"
  "hLines (mousePressed rnd s) =
     makeRandomLines rnd
       (randomCalls s + makeRandomLines_tries rnd (randomCalls s) (length (originalV s)) W MARGIN 60)
       (length (originalH s)) H MARGIN 60"
  "cells (mousePressed rnd s) =
     computeCellsFor (vLines (mousePressed rnd s)) (hLines (mousePressed rnd s))"
  "mode (mousePressed rnd s) = Randomized"
  "originalV (mousePressed rnd s) = originalV s"
  "originalH (mousePressed rnd s) = originalH s"
  "originalColorTargets (mousePressed rnd s) = originalColorTargets s"
  "originalColorsMap (mousePressed rnd s) = originalColorsMap s"
  by (simp_all add: mousePressed_def recomputeCells_def Let_def)

lemma mouseReleased_fields:
  "vLines (mouseReleased now s) = vLines s"
  "hLines (mouseReleased now s) = hLines s"
  "cells (mouseReleased now s) = cells s"
  "mode (mouseReleased now s) = Transition"
  "tStart (mouseReleased now s) = now"
  "vStart (mouseReleased now s) = vLines s"
  "hStart (mouseReleased now s) = hLines s"
  "originalV (mouseReleased now s) = originalV s"
  "originalH (mouseReleased now s) = originalH s"
  "originalColorTargets (mouseReleased now s) = originalColorTargets s"
  "originalColorsMap (mouseReleased now s) = originalColorsMap s"
  "randomColorsMap (mouseReleased now s) = randomColorsMap s"
  by (simp_all add: mouseReleased_def)

lemma draw_state:
  "snd (draw now s) =
     (if mode s = Transition \<and> 1 \<le> constrain ((now - tStart s) / TRANSITION_MS) 0 1
      then s\<lparr> vLines := originalV s, hLines := originalH s,
               cells := computeCellsFor (originalV s) (originalH s), mode := Original \<rparr>
      else s)"
  by (simp add: draw_def Let_def)

lemma length_makeRandomLines:
  "length (makeRandomLines rnd k0 count span' margin minGap) \<le> count"
  using makeRandomLines_budget [of rnd k0 count span' margin minGap] by simp

lemma mousePressed_lengths:
  "length (vLines (mousePressed rnd s)) \<le> length (originalV s)"
  "length (hLines (mousePressed rnd s)) \<le> length (originalH s)"
  by (simp_all add: mousePressed_fields length_makeRandomLines)

lemma setup_inv: "sketch_inv (sketch_setup initial)"
  by (simp add: sketch_inv_def original_state)
     (simp add: sketch_setup_def initial_def recomputeCells_def Let_def)

lemma step_inv:
  assumes "sketch_inv s"
  shows "sketch_inv (step rnd s e)"
proof (cases e)
  case (Draw now)
  then show ?thesis
    using assms by (simp add: draw_state sketch_inv_def)
next
  case MousePressed
  have "length (originalV s) = 4" "length (originalH s) = 5"
    using assms by (simp_all add: sketch_inv_def)
  then have "length (vLines (mousePressed rnd s)) \<le> 4" "length (hLines (mousePressed rnd s)) \<le> 5"
    using mousePressed_lengths [of rnd s] by simp_all
  then show ?thesis
    using assms MousePressed by (simp add: sketch_inv_def mousePressed_fields(3-8))
next
  case (MouseReleased now)
  then show ?thesis
    using assms by (simp add: sketch_inv_def mouseReleased_fields)
qed

lemma run_inv: "sketch_inv (run rnd evs)"
  by (induction evs rule: rev_induct) (simp_all add: run_Nil run_snoc setup_inv step_inv)


text \<open>C3. Whenever a frame tick in the transition state observes progress u >= 1, the
  state after the tick has the authoritative cut lists equal, element for element, to
  the original cuts [90, 320, 360, 560] and [90, 250, 290, 380, 540], the cells
  recomputed from them, and the mode original. This holds after every history of
  presses, releases and ticks, so no drift accumulates over repeated cycles.\<close>

theorem transition_commits_exact_original:
  assumes "mode (run rnd evs) = Transition"
    and "1 \<le> constrain ((now - tStart (run rnd evs)) / TRANSITION_MS) 0 1"
  shows "vLines (run rnd (evs @ [Draw now])) = [90, 320, 360, 560]
       \<and> hLines (run rnd (evs @ [Draw now])) = [90, 250, 290, 380, 540]
       \<and> vLines (run rnd (evs @ [Draw now])) = originalV (run rnd (evs @ [Draw now]))
       \<and> hLines (run rnd (evs @ [Draw now])) = originalH (run rnd (evs @ [Draw now]))
       \<and> cells (run rnd (evs @ [Draw now]))
           = computeCellsFor [90, 320, 360, 560] [90, 250, 290, 380, 540]
       \<and> mode (run rnd (evs @ [Draw now])) = Original"
proof -
  have "originalV (run rnd evs) = [90, 320, 360, 560]"
    and "originalH (run rnd evs) = [90, 250, 290, 380, 540]"
    using run_inv [of rnd evs] by (simp_all add: sketch_inv_def)
  then show ?thesis
    using assms by (simp add: run_snoc draw_state)
qed

theorem transition_commits_exact_original_witness:
  "mode (run sample_rand [MousePressed, MouseReleased 1000]) = Transition
   \<and> 1 \<le> constrain ((2100 - tStart (run sample_rand [MousePressed, MouseReleased 1000]))
            / TRANSITION_MS) 0 1
   \<and> vLines (run sample_rand ([MousePressed, MouseReleased 1000] @ [Draw 2100]))
       = [90, 320, 360, 560]
   \<and> hLines (run sample_rand ([MousePressed, MouseReleased 1000] @ [Draw 2100]))
       = [90, 250, 290, 380, 540]
   \<and> mode (run sample_rand ([MousePressed, MouseReleased 1000] @ [Draw 2100])) = Original"
proof -
  have m: "mode (run sample_rand [MousePressed, MouseReleased 1000]) = Transition"
    by (simp add: run_def mouseReleased_fields)
  have u: "1 \<le> constrain ((2100 - tStart (run sample_rand [MousePressed, MouseReleased 1000]))
            / TRANSITION_MS) 0 1"
    by (simp add: run_def mouseReleased_fields constrain_def TRANSITION_MS_def)
  from transition_commits_exact_original [OF m u] m u show ?thesis
    by (intro conjI) simp_all
qed

lemma stuck_lines:
  assumes "0 < count" and "0 < minGap"
  shows "makeRandomLines stuck_rand k0 count span' margin minGap = [margin + LINE_W]"
proof -
  have first: "makeRandomLines_loop stuck_rand k0 count span' margin minGap [] 0
      = makeRandomLines_loop stuck_rand k0 count span' margin minGap [margin + LINE_W] 1"
    using assms(1) by (simp add: loop_step triesLimit_def stuck_rand_def)
  have "fst (makeRandomLines_loop stuck_rand k0 count span' margin minGap [margin + LINE_W] 1)
      = [margin + LINE_W]"
    by (rule loop_invariant [where I = "\<lambda>ps. ps = [margin + LINE_W]"])
       (use assms(2) in \<open>simp_all add: stuck_rand_def\<close>)
  then show ?thesis
    by (simp add: makeRandomLines_def first)
qed

text \<open>C8 as stated fails: with a random source that keeps answering with the same
  number, the first candidate is accepted and the 4999 that follow are rejected, so a
  press leaves one vertical cut where setup had four.\<close>

theorem cut_count_fixed_counterexample:
  "length (vLines (run stuck_rand [])) = 4
   \<and> vLines (run stuck_rand [MousePressed]) = [18]
   \<and> length (vLines (run stuck_rand [MousePressed])) \<noteq> length (vLines (run stuck_rand []))"
proof -
  have a: "length (vLines (run stuck_rand [])) = 4"
    by (simp add: run_Nil original_state)
  have b: "vLines (run stuck_rand [MousePressed]) = [18]"
    by (simp add: run_def mousePressed_fields original_state stuck_lines MARGIN_def LINE_W_def)
  from a b show ?thesis by simp
qed

text \<open>C8, amended. Across every sequence of presses, releases and frame ticks, the
  length of each authoritative cut list never exceeds the length established at setup,
  and equals it whenever the mode is original (at the start and after every completed
  transition). A press sets each list to the line generator's result, which has the
  setup length unless that call of the generator used up its 5000 attempts.\<close>

theorem cut_count_bounded_by_setup:
  "length (vLines (run rnd evs)) \<le> length (vLines (run rnd []))
   \<and> length (hLines (run rnd evs)) \<le> length (hLines (run rnd []))
   \<and> (mode (run rnd evs) = Original \<longrightarrow>
        length (vLines (run rnd evs)) = length (vLines (run rnd []))
        \<and> length (hLines (run rnd evs)) = length (hLines (run rnd [])))
   \<and> (length (vLines (run rnd (evs @ [MousePressed]))) = length (vLines (run rnd []))
      \<or> makeRandomLines_tries rnd (randomCalls (run rnd evs)) 4 W MARGIN 60 = 5000)
   \<and> (length (hLines (run rnd (evs @ [MousePressed]))) = length (hLines (run rnd []))
      \<or> makeRandomLines_tries rnd
           (randomCalls (run rnd evs)
              + makeRandomLines_tries rnd (randomCalls (run rnd evs)) 4 W MARGIN 60)
           5 H MARGIN 60 = 5000)"
proof -
  have inv: "sketch_inv (run rnd evs)"
    by (rule run_inv)
  have ov: "length (originalV (run rnd evs)) = 4" "length (originalH (run rnd evs)) = 5"
    using inv by (simp_all add: sketch_inv_def)
  have v: "length (vLines (run rnd (evs @ [MousePressed]))) = 4
      \<or> makeRandomLines_tries rnd (randomCalls (run rnd evs)) 4 W MARGIN 60 = 5000"
    using makeRandomLines_budget [of rnd "randomCalls (run rnd evs)" 4 W MARGIN 60]
    by (auto simp: run_snoc mousePressed_fields ov triesLimit_def)
  have h: "length (hLines (run rnd (evs @ [MousePressed]))) = 5
      \<or> makeRandomLines_tries rnd
           (randomCalls (run rnd evs)
              + makeRandomLines_tries rnd (randomCalls (run rnd evs)) 4 W MARGIN 60)
           5 H MARGIN 60 = 5000"
    using makeRandomLines_budget [of rnd "randomCalls (run rnd evs)
              + makeRandomLines_tries rnd (randomCalls (run rnd evs)) 4 W MARGIN 60" 5 H MARGIN 60]
    by (auto simp: run_snoc mousePressed_fields ov triesLimit_def)
  have le: "length (vLines (run rnd evs)) \<le> 4" "length (hLines (run rnd evs)) \<le> 5"
    using inv by (simp_all add: sketch_inv_def)
  have orig: "length (vLines (run rnd evs)) = 4 \<and> length (hLines (run rnd evs)) = 5"
    if "mode (run rnd evs) = Original"
    using inv that ov by (simp add: sketch_inv_def)
  have base: "length (vLines (run rnd [])) = 4" "length (hLines (run rnd [])) = 5"
    by (simp_all add: run_Nil original_state)
  from le orig v h show ?thesis
    unfolding base by blast
qed

theorem cut_count_bounded_by_setup_witness:
  "mode (run sample_rand [MousePressed, MouseReleased 0, Draw 1100]) = Original
   \<and> length (vLines (run sample_rand [MousePressed, MouseReleased 0, Draw 1100])) = 4
   \<and> length (hLines (run sample_rand [MousePressed, MouseReleased 0, Draw 1100])) = 5
   \<and> length (vLines (run sample_rand [MousePressed])) \<le> 4"
proof -
  have m: "mode (run sample_rand [MousePressed, MouseReleased 0, Draw 1100]) = Original"
    by (simp add: run_def draw_state mouseReleased_fields constrain_def TRANSITION_MS_def)
  from cut_count_bounded_by_setup [of sample_rand "[MousePressed, MouseReleased 0, Draw 1100]"]
       cut_count_bounded_by_setup [of sample_rand "[MousePressed]"] m
  show ?thesis
    by (simp add: run_Nil original_state)
qed

section \<open>Colour is drawn exactly outside the transition\<close>

lemma length_computeCellsFor:
  "length (computeCellsFor vArr hArr) = (length vArr + 1) * (length hArr + 1)"
  using computeCellsFor_enum [OF refl refl, of vArr hArr]
  by (simp only: length_map length_upt diff_zero mult.commute)

lemma drawGrid_no_fill: "Fill c \<notin> set (drawGrid v h)" "Rect a b d e \<notin> set (drawGrid v h)"
  by (auto simp: drawGrid_def)

lemma fill_in_grid:
  assumes "j < r" and "i < c" and "x \<in> set (f j i)"
  shows "x \<in> set (concat (map (\<lambda>j. concat (map (\<lambda>i. f j i) [0..<c])) [0..<r]))"
proof -
  have i: "i \<in> {0..<c}" and j: "j \<in> {0..<r}"
    using assms(1,2) by simp_all
  have "x \<in> (\<Union>i\<in>{0..<c}. set (f j i))"
    using i assms(3) by blast
  then have "x \<in> (\<Union>j\<in>{0..<r}. \<Union>i\<in>{0..<c}. set (f j i))"
    using j by blast
  then show ?thesis
    by (simp only: set_concat set_map set_upt image_image)
qed

lemma drawColorsFromMap_fill:
  assumes "cn = length vArr + 1" and "rn = length hArr + 1"
    and "j < rn" and "i < cn"
    and "m (Index (int j * int cn + int i)) = Some c"
  shows "Fill c \<in> set (drawColorsFromMap m vArr hArr)"
proof -
  have len: "length (0 # sort vArr @ [W]) - 1 = cn"
    "length (0 # sort hArr @ [H]) - 1 = rn"
    "int (length (0 # sort vArr @ [W])) - 1 = int cn"
    by (simp_all add: assms(1,2))
  have eq: "drawColorsFromMap m vArr hArr =
      NoStroke # concat (map (\<lambda>j. concat (map (\<lambda>i.
           (case m (Index (int j * int cn + int i)) of
              None \<Rightarrow> []
            | Some c \<Rightarrow> [Fill c, Rect ((0 # sort vArr @ [W]) ! i) ((0 # sort hArr @ [H]) ! j)
                ((0 # sort vArr @ [W]) ! (i + 1) - (0 # sort vArr @ [W]) ! i)
                ((0 # sort hArr @ [H]) ! (j + 1) - (0 # sort hArr @ [H]) ! j)]))
          [0..<cn])) [0..<rn])"
    unfolding drawColorsFromMap_def Let_def by (simp only: len)
  have "Fill c \<in> set (concat (map (\<lambda>j. concat (map (\<lambda>i.
           (case m (Index (int j * int cn + int i)) of
              None \<Rightarrow> []
            | Some c \<Rightarrow> [Fill c, Rect ((0 # sort vArr @ [W]) ! i) ((0 # sort hArr @ [H]) ! j)
                ((0 # sort vArr @ [W]) ! (i + 1) - (0 # sort vArr @ [W]) ! i)
                ((0 # sort hArr @ [H]) ! (j + 1) - (0 # sort hArr @ [H]) ! j)]))
          [0..<cn])) [0..<rn]))"
    by (rule fill_in_grid [OF assms(3,4)]) (simp add: assms(5))
  then show ?thesis
    by (simp only: eq list.set insert_iff) simp
qed

lemma drawColorsFromMap_fill_index:
  assumes "k < (length vArr + 1) * (length hArr + 1)" and "m (Index (int k)) = Some c"
  shows "Fill c \<in> set (drawColorsFromMap m vArr hArr)"
proof -
  define cn where "cn = length vArr + 1"
  define rn where "rn = length hArr + 1"
  have pos: "0 < cn" by (simp add: cn_def)
  have "k < cn * rn"
    using assms(1) by (simp only: cn_def rn_def)
  then have j: "k div cn < rn"
    by (simp add: less_mult_imp_div_less mult.commute)
  have i: "k mod cn < cn"
    using pos by simp
  have "int (k div cn) * int cn + int (k mod cn) = int k"
    by (simp only: div_mult_mod_eq flip: of_nat_mult of_nat_add)
  then have "m (Index (int (k div cn) * int cn + int (k mod cn))) = Some c"
    using assms(2) by simp
  then show ?thesis
    by (rule drawColorsFromMap_fill [where m = m, OF cn_def rn_def j i])
qed


lemma swap_in_range:
  assumes "0 \<le> j" and "j < int (length (fst arr))" and "i < length (fst arr)"
  shows "length (fst (js_set (js_set arr (int i) (js_get arr j)) j (js_get arr (int i))))
           = length (fst arr)"
    and "set (fst (js_set (js_set arr (int i) (js_get arr j)) j (js_get arr (int i))))
           \<subseteq> set (fst arr)"
proof -
  have eq: "fst (js_set (js_set arr (int i) (js_get arr j)) j (js_get arr (int i)))
      = (fst arr)[i := fst arr ! nat j, nat j := fst arr ! i]"
    using assms by (simp add: js_set_def js_get_def)
  show "length (fst (js_set (js_set arr (int i) (js_get arr j)) j (js_get arr (int i))))
           = length (fst arr)"
    by (simp add: eq)
  have "fst arr ! nat j \<in> set (fst arr)" "fst arr ! i \<in> set (fst arr)"
    using assms by simp_all
  then show "set (fst (js_set (js_set arr (int i) (js_get arr j)) j (js_get arr (int i))))
           \<subseteq> set (fst arr)"
    unfolding eq
    using set_update_subset_insert [of "(fst arr)[i := fst arr ! nat j]" "nat j" "fst arr ! i"]
      set_update_subset_insert [of "fst arr" i "fst arr ! nat j"]
    by blast
qed

lemma shuffle_loop_in_range:
  assumes "\<forall>k n. 0 < n \<longrightarrow> 0 \<le> rnd k 0 n \<and> rnd k 0 n < n"
    and "n < length (fst arr)"
  shows "length (fst (shuffle_loop rnd k arr n)) = length (fst arr)
       \<and> set (fst (shuffle_loop rnd k arr n)) \<subseteq> set (fst arr)"
  using assms(2)
proof (induction n arbitrary: k arr)
  case 0
  show ?case by simp
next
  case (Suc n)
  define j where "j = \<lfloor>rnd k 0 (real (Suc n) + 1)\<rfloor>"
  define arr2 where
    "arr2 = js_set (js_set arr (int (Suc n)) (js_get arr j)) j (js_get arr (int (Suc n)))"
  have r: "0 \<le> rnd k 0 (real (Suc n) + 1)" "rnd k 0 (real (Suc n) + 1) < real (Suc n) + 1"
    using assms(1) by simp_all
  have j0: "0 \<le> j"
    using r(1) by (simp add: j_def)
  have "j < int (Suc n) + 1"
    using r(2) by (simp add: j_def floor_less_iff)
  then have j1: "j < int (length (fst arr))"
    using Suc.prems by simp
  have len: "length (fst arr2) = length (fst arr)" and sub: "set (fst arr2) \<subseteq> set (fst arr)"
    unfolding arr2_def using swap_in_range [OF j0 j1 Suc.prems] by simp_all
  have "n < length (fst arr2)"
    using Suc.prems len by simp
  from Suc.IH [OF this, of "k + 1"] len sub
  have "length (fst (shuffle_loop rnd (k + 1) arr2 n)) = length (fst arr)
       \<and> set (fst (shuffle_loop rnd (k + 1) arr2 n)) \<subseteq> set (fst arr)"
    by auto
  then show ?case
    by (simp add: Let_def j_def arr2_def)
qed

lemma shuffleInPlace_in_range:
  assumes "\<forall>k n. 0 < n \<longrightarrow> 0 \<le> rnd k 0 n \<and> rnd k 0 n < n" and "arr \<noteq> []"
  shows "length (shuffleInPlace rnd k arr) = length arr"
    and "set (shuffleInPlace rnd k arr) \<subseteq> set arr"
  using shuffle_loop_in_range
      [where rnd = rnd and n = "length arr - 1" and arr = "(arr, Map.empty)" and k = k]
    assms
  by (simp_all add: shuffleInPlace_def)

lemma fold_upd_keeps:
  "m0 key \<noteq> None \<Longrightarrow> fold (\<lambda>i m. m(f i \<mapsto> g i)) ns m0 key \<noteq> None"
  by (induction ns arbitrary: m0) simp_all

lemma fold_upd_sets:
  "i \<in> set ns \<Longrightarrow> fold (\<lambda>i m. m(f i \<mapsto> g i)) ns m0 (f i) \<noteq> None"
proof (induction ns arbitrary: m0)
  case Nil
  then show ?case by simp
next
  case (Cons n ns)
  have unfold: "fold (\<lambda>i m. m(f i \<mapsto> g i)) (n # ns) m0
      = fold (\<lambda>i m. m(f i \<mapsto> g i)) ns (m0(f n \<mapsto> g n))"
    by simp
  show ?case
  proof (cases "i = n")
    case True
    have "(m0(f n \<mapsto> g n)) (f n) \<noteq> None"
      by simp
    from fold_upd_keeps [where ?m0.0 = "m0(f n \<mapsto> g n)" and key = "f n", OF this]
    show ?thesis
      unfolding unfold True .
  next
    case False
    then have "i \<in> set ns"
      using Cons.prems by simp
    from Cons.IH [OF this] show ?thesis
      unfolding unfold .
  qed
qed

lemma mousePressed_map:
  "\<exists>K. randomColorsMap (mousePressed rnd s) =
     fold (\<lambda>i m. m(shuffleInPlace rnd K
                      (map (\<lambda>n. Index (int n)) [0..<length (cells (mousePressed rnd s))]) ! i
                    \<mapsto> map col (originalColorTargets s) ! (i mod length (map col (originalColorTargets s)))))
       [0..<min (length (map col (originalColorTargets s)))
              (length (shuffleInPlace rnd K
                 (map (\<lambda>n. Index (int n)) [0..<length (cells (mousePressed rnd s))])))]
       Map.empty"
  by (rule exI) (simp add: mousePressed_def recomputeCells_def Let_def)

lemma mousePressed_colours_a_cell:
  assumes contract: "\<forall>k n. 0 < n \<longrightarrow> 0 \<le> rnd k 0 n \<and> rnd k 0 n < n"
    and targets: "originalColorTargets s \<noteq> []"
  shows "\<exists>k. k < (length (vLines (mousePressed rnd s)) + 1) * (length (hLines (mousePressed rnd s)) + 1)
           \<and> randomColorsMap (mousePressed rnd s) (Index (int k)) \<noteq> None"
proof -
  define n where "n = length (cells (mousePressed rnd s))"
  have n: "n = (length (vLines (mousePressed rnd s)) + 1) * (length (hLines (mousePressed rnd s)) + 1)"
    by (simp only: n_def mousePressed_fields(3) length_computeCellsFor)
  then have npos: "0 < n" by simp
  obtain K where m: "randomColorsMap (mousePressed rnd s) =
     fold (\<lambda>i m. m(shuffleInPlace rnd K (map (\<lambda>n. Index (int n)) [0..<n]) ! i
                    \<mapsto> map col (originalColorTargets s) ! (i mod length (map col (originalColorTargets s)))))
       [0..<min (length (map col (originalColorTargets s)))
              (length (shuffleInPlace rnd K (map (\<lambda>n. Index (int n)) [0..<n])))]
       Map.empty"
    using mousePressed_map [of rnd s] unfolding n_def by blast
  define indices where "indices = shuffleInPlace rnd K (map (\<lambda>n. Index (int n)) [0..<n])"
  have ne: "map (\<lambda>n. Index (int n)) [0..<n] \<noteq> []"
    using npos by simp
  have len: "length indices = n"
    unfolding indices_def
    using shuffleInPlace_in_range(1) [where rnd = rnd and k = K, OF _ ne] contract by simp
  have sub: "set indices \<subseteq> set (map (\<lambda>n. Index (int n)) [0..<n])"
    unfolding indices_def
    using shuffleInPlace_in_range(2) [where rnd = rnd and k = K, OF _ ne] contract by simp
  have "indices ! 0 \<in> set indices"
    using len npos by simp
  with sub obtain k where k: "k < n" "indices ! 0 = Index (int k)"
    by auto
  have "0 \<in> set [0..<min (length (map col (originalColorTargets s))) (length indices)]"
    using targets len npos by simp
  from fold_upd_sets [OF this]
  have "randomColorsMap (mousePressed rnd s) (indices ! 0) \<noteq> None"
    unfolding m indices_def [symmetric] .
  with k n show ?thesis
    by auto
qed


lemma run_randomized_colours_a_cell:
  assumes contract: "\<forall>k n. 0 < n \<longrightarrow> 0 \<le> rnd k 0 n \<and> rnd k 0 n < n"
    and "mode (run rnd evs) = Randomized"
  shows "\<exists>k. k < (length (vLines (run rnd evs)) + 1) * (length (hLines (run rnd evs)) + 1)
           \<and> randomColorsMap (run rnd evs) (Index (int k)) \<noteq> None"
  using assms(2)
proof (induction evs rule: rev_induct)
  case Nil
  then show ?case
    by (simp add: run_Nil original_state)
next
  case (snoc e evs)
  show ?case
  proof (cases e)
    case (Draw now)
    show ?thesis
    proof (cases "mode (run rnd evs) = Transition
        \<and> 1 \<le> constrain ((now - tStart (run rnd evs)) / TRANSITION_MS) 0 1")
      case True
      then have "mode (run rnd (evs @ [e])) = Original"
        using Draw by (simp add: run_snoc draw_state)
      then show ?thesis
        using snoc.prems by simp
    next
      case False
      then have "run rnd (evs @ [e]) = run rnd evs"
        using Draw by (simp only: run_snoc step.simps draw_state if_False)
      then show ?thesis
        using snoc by simp
    qed
  next
    case MousePressed
    have "originalColorTargets (run rnd evs) \<noteq> []"
      using run_inv [of rnd evs] by (simp add: sketch_inv_def original_state)
    from mousePressed_colours_a_cell [where rnd = rnd and s = "run rnd evs", OF _ this] contract
    show ?thesis
      by (simp only: MousePressed run_snoc step.simps)
  next
    case (MouseReleased now)
    then have "mode (run rnd (evs @ [e])) = Transition"
      by (simp add: run_snoc mouseReleased_fields)
    then show ?thesis
      using snoc.prems by simp
  qed
qed

lemma original_mode_fills:
  assumes "mode (run rnd evs) = Original"
  shows "Fill (Color 25 80 180)
     \<in> set (drawColorsFromMap (originalColorsMap (run rnd evs))
               (vLines (run rnd evs)) (hLines (run rnd evs)))"
proof -
  have inv: "sketch_inv (run rnd evs)"
    by (rule run_inv)
  have v: "vLines (run rnd evs) = [90, 320, 360, 560]"
    and h: "hLines (run rnd evs) = [90, 250, 290, 380, 540]"
    using inv assms by (simp_all add: sketch_inv_def)
  have "originalColorsMap (run rnd evs) (Index (int 16)) = Some (Color 25 80 180)"
    using inv by (simp add: sketch_inv_def original_map_eq original_map_value)
  moreover have "16 < (length (vLines (run rnd evs)) + 1) * (length (hLines (run rnd evs)) + 1)"
    by (simp add: v h)
  ultimately show ?thesis
    by (rule drawColorsFromMap_fill_index [rotated])
qed

lemma draw_ops:
  "fst (draw now s) =
     (if mode s = Transition then
        Background 255 # drawGrid
          (lerpArray (vStart s) (originalV s)
             (easeInOutCubic (constrain ((now - tStart s) / TRANSITION_MS) 0 1)))
          (lerpArray (hStart s) (originalH s)
             (easeInOutCubic (constrain ((now - tStart s) / TRANSITION_MS) 0 1)))
      else if mode s = Randomized then
        Background 255 # drawColorsFromMap (randomColorsMap s) (vLines s) (hLines s)
          @ drawGrid (map Num (vLines s)) (map Num (hLines s))
      else
        Background 255 # drawColorsFromMap (originalColorsMap s) (vLines s) (hLines s)
          @ drawGrid (map Num (vLines s)) (map Num (hLines s)))"
  by (simp add: draw_def Let_def)

lemma sample_rand_contract:
  "\<forall>k n. 0 < n \<longrightarrow> 0 \<le> sample_rand k 0 n \<and> sample_rand k 0 n < n"
proof (intro allI impI)
  fix k :: nat and n :: real
  assume n: "0 < n"
  have "k mod 8 < 8" by simp
  then have "real (k mod 8) < 8"
    by (simp only: of_nat_less_numeral_iff)
  then have "real (k mod 8) / 8 < 1" by simp
  then have "n * (real (k mod 8) / 8) < n * 1"
    using n by (simp only: mult_less_cancel_left_pos)
  then show "0 \<le> sample_rand k 0 n \<and> sample_rand k 0 n < n"
    using n by (simp add: sample_rand_def)
qed

text \<open>C2. Provided the host's random source answers \<open>random(n)\<close> with a number in
  [0, n), in every reachable state a frame fills cells with colour if and only if the
  mode is original or randomized. In original mode the colour pass uses
  originalColorsMap, in randomized mode randomColorsMap, each against the state's
  authoritative cut lists, followed by the grid lines. In transition mode the frame
  consists of the background and the grid lines over the interpolated cuts, with no
  fill and no rectangle.\<close>

theorem colour_drawn_iff_not_transition:
  assumes "\<forall>k n. 0 < n \<longrightarrow> 0 \<le> rnd k 0 n \<and> rnd k 0 n < n"
    and "s = run rnd evs"
  shows "((\<exists>c. Fill c \<in> set (fst (draw now s))) \<longleftrightarrow> mode s = Original \<or> mode s = Randomized)
       \<and> (mode s = Original \<longrightarrow>
            fst (draw now s) =
              Background 255 # drawColorsFromMap (originalColorsMap s) (vLines s) (hLines s)
                @ drawGrid (map Num (vLines s)) (map Num (hLines s)))
       \<and> (mode s = Randomized \<longrightarrow>
            fst (draw now s) =
              Background 255 # drawColorsFromMap (randomColorsMap s) (vLines s) (hLines s)
                @ drawGrid (map Num (vLines s)) (map Num (hLines s)))
       \<and> (mode s = Transition \<longrightarrow>
            fst (draw now s) =
              Background 255 # drawGrid
                (lerpArray (vStart s) (originalV s)
                   (easeInOutCubic (constrain ((now - tStart s) / TRANSITION_MS) 0 1)))
                (lerpArray (hStart s) (originalH s)
                   (easeInOutCubic (constrain ((now - tStart s) / TRANSITION_MS) 0 1)))
            \<and> (\<forall>c. Fill c \<notin> set (fst (draw now s)))
            \<and> (\<forall>a b d e. Rect a b d e \<notin> set (fst (draw now s))))"
proof -
  have orig: "\<exists>c. Fill c \<in> set (fst (draw now s))" if "mode s = Original"
    using original_mode_fills [of rnd evs] that assms(2)
    by (auto simp: draw_ops)
  have rand: "\<exists>c. Fill c \<in> set (fst (draw now s))" if m: "mode s = Randomized"
  proof -
    obtain k c where "k < (length (vLines s) + 1) * (length (hLines s) + 1)"
      and "randomColorsMap s (Index (int k)) = Some c"
      using run_randomized_colours_a_cell [where rnd = rnd and evs = evs] assms m by auto
    then have "Fill c \<in> set (drawColorsFromMap (randomColorsMap s) (vLines s) (hLines s))"
      by (rule drawColorsFromMap_fill_index)
    then show ?thesis
      using m by (auto simp: draw_ops)
  qed
  have trans: "Fill c \<notin> set (fst (draw now s))" "Rect a b d e \<notin> set (fst (draw now s))"
    if "mode s = Transition" for c a b d e
    using that by (simp_all add: draw_ops drawGrid_no_fill)
  have modes: "mode s = Original \<or> mode s = Randomized \<or> mode s = Transition"
    by (cases "mode s") simp_all
  have iff: "(\<exists>c. Fill c \<in> set (fst (draw now s))) \<longleftrightarrow> mode s = Original \<or> mode s = Randomized"
    using orig rand trans(1) modes by auto
  have shape: "mode s = Original \<longrightarrow>
            fst (draw now s) =
              Background 255 # drawColorsFromMap (originalColorsMap s) (vLines s) (hLines s)
                @ drawGrid (map Num (vLines s)) (map Num (hLines s))"
    "mode s = Randomized \<longrightarrow>
            fst (draw now s) =
              Background 255 # drawColorsFromMap (randomColorsMap s) (vLines s) (hLines s)
                @ drawGrid (map Num (vLines s)) (map Num (hLines s))"
    "mode s = Transition \<longrightarrow>
            fst (draw now s) =
              Background 255 # drawGrid
                (lerpArray (vStart s) (originalV s)
                   (easeInOutCubic (constrain ((now - tStart s) / TRANSITION_MS) 0 1)))
                (lerpArray (hStart s) (originalH s)
                   (easeInOutCubic (constrain ((now - tStart s) / TRANSITION_MS) 0 1)))"
    by (simp_all add: draw_ops)
  from iff shape trans show ?thesis
    by blast
qed

theorem colour_drawn_iff_not_transition_witness:
  "mode (run sample_rand []) = Original
   \<and> (\<exists>c. Fill c \<in> set (fst (draw 0 (run sample_rand []))))
   \<and> mode (run sample_rand [MousePressed]) = Randomized
   \<and> (\<exists>c. Fill c \<in> set (fst (draw 0 (run sample_rand [MousePressed]))))
   \<and> mode (run sample_rand [MousePressed, MouseReleased 0]) = Transition
   \<and> \<not> (\<exists>c. Fill c \<in> set (fst (draw 500 (run sample_rand [MousePressed, MouseReleased 0]))))"
proof -
  have m0: "mode (run sample_rand []) = Original"
    by (simp add: run_Nil original_state)
  have m1: "mode (run sample_rand [MousePressed]) = Randomized"
    by (simp add: run_def mousePressed_fields)
  have m2: "mode (run sample_rand [MousePressed, MouseReleased 0]) = Transition"
    by (simp add: run_def mouseReleased_fields)
  note c = sample_rand_contract
  from colour_drawn_iff_not_transition
         [where rnd = sample_rand and evs = "[]" and now = 0, OF c refl, THEN conjunct1]
       colour_drawn_iff_not_transition
         [where rnd = sample_rand and evs = "[MousePressed]" and now = 0, OF c refl,
          THEN conjunct1]
       colour_drawn_iff_not_transition
         [where rnd = sample_rand and evs = "[MousePressed, MouseReleased 0]" and now = 500,
          OF c refl, THEN conjunct1]
       m0 m1 m2
  show ?thesis
    by simp
qed

end
